theory Spec2Isabelle
  imports Main "HOL-Library.List_Lexorder" "HOL-Library.Product_Lexorder"
begin

section \<open>Python strings\<close>

text \<open>
  A Python \<open>str\<close> is a sequence of Unicode code points, and every operation of
  \<^verbatim>\<open>translation_manager.py\<close> works on code points (not on UTF-8 bytes), so a string is
  modelled as the list of its code points. \<open>py\<close> reads an ASCII literal as such a list.
\<close>

type_synonym pystr = "nat list"

abbreviation py :: "string \<Rightarrow> pystr" where
  "py s \<equiv> map of_char s"

text \<open>
  \<open>str.isspace\<close> on one code point, which is also what \<open>str.strip\<close> removes and what
  \<^verbatim>\<open>\s\<close> matches in a \<open>str\<close> pattern: U+0009..U+000D, U+001C..U+0020, U+0085, U+00A0,
  U+1680, U+2000..U+200A, U+2028, U+2029, U+202F, U+205F, U+3000.
\<close>

definition isspace :: "nat \<Rightarrow> bool" where
  "isspace c = ((9 \<le> c \<and> c \<le> 13) \<or> (28 \<le> c \<and> c \<le> 32) \<or> c = 133 \<or> c = 160 \<or>
     c = 5760 \<or> (8192 \<le> c \<and> c \<le> 8202) \<or> c = 8232 \<or> c = 8233 \<or> c = 8239 \<or>
     c = 8287 \<or> c = 12288)"

definition lstrip :: "pystr \<Rightarrow> pystr" where
  "lstrip s = dropWhile isspace s"

definition rstrip :: "pystr \<Rightarrow> pystr" where
  "rstrip s = rev (dropWhile isspace (rev s))"

definition strip :: "pystr \<Rightarrow> pystr" where
  "strip s = rstrip (lstrip s)"

text \<open>The slice \<^verbatim>\<open>text[a:b]\<close> for indices \<open>0 \<le> a\<close>, \<open>0 \<le> b\<close> (Python clamps both).\<close>

definition slice :: "pystr \<Rightarrow> nat \<Rightarrow> nat \<Rightarrow> pystr" where
  "slice text a b = take (b - a) (drop a text)"

section \<open>Segment tokenizer\<close>

text \<open>
  \<^verbatim>\<open>_TAG_PATTERN\<close> is the alternation
  \<^verbatim>\<open>(<[^>]+>|\[[A-Z]+\]|\\n| \\n )\<close> compiled with \<^verbatim>\<open>re.IGNORECASE\<close>.
  Each alternative is modelled by the length of its match anchored at the head of the
  remaining text. The quantifiers are greedy, and since the character after the
  repetition is excluded from the repeated class, backtracking cannot find another
  match. Code points: \<open><\<close> 60, \<open>>\<close> 62, \<open>[\<close> 91, backslash 92, \<open>]\<close> 93, space 32,
  \<open>n\<close> 110, \<open>N\<close> 78.
\<close>

text \<open>
  The class \<^verbatim>\<open>[A-Z]\<close> under \<^verbatim>\<open>IGNORECASE\<close> on a \<open>str\<close> pattern: the 52 ASCII letters
  and the four letters U+0130, U+0131, U+017F and U+212A that case-fold into them.
\<close>

definition az_ignorecase :: "nat \<Rightarrow> bool" where
  "az_ignorecase c = ((65 \<le> c \<and> c \<le> 90) \<or> (97 \<le> c \<and> c \<le> 122) \<or>
     c = 304 \<or> c = 305 \<or> c = 383 \<or> c = 8490)"

definition alt_angle :: "pystr \<Rightarrow> nat option" where
  "alt_angle s = (case s of
       [] \<Rightarrow> None
     | c # r \<Rightarrow>
         if c = 60 then
           (let body = takeWhile (\<lambda>x. x \<noteq> 62) r in
            if body \<noteq> [] \<and> length body < length r then Some (length body + 2) else None)
         else None)"

definition alt_bracket :: "pystr \<Rightarrow> nat option" where
  "alt_bracket s = (case s of
       [] \<Rightarrow> None
     | c # r \<Rightarrow>
         if c = 91 then
           (let name = takeWhile az_ignorecase r in
            if name \<noteq> [] \<and> take 1 (drop (length name) r) = [93]
            then Some (length name + 2) else None)
         else None)"

definition alt_escape :: "pystr \<Rightarrow> nat option" where
  "alt_escape s = (case s of
       c # n # _ \<Rightarrow> if c = 92 \<and> (n = 110 \<or> n = 78) then Some 2 else None
     | _ \<Rightarrow> None)"

definition alt_padded :: "pystr \<Rightarrow> nat option" where
  "alt_padded s = (case s of
       a # c # n # b # _ \<Rightarrow>
         if a = 32 \<and> c = 92 \<and> (n = 110 \<or> n = 78) \<and> b = 32 then Some 4 else None
     | _ \<Rightarrow> None)"

text \<open>The alternation takes the first alternative that matches, in the order written.\<close>

definition tag_match :: "pystr \<Rightarrow> nat option" where
  "tag_match s = (case alt_angle s of
       Some n \<Rightarrow> Some n
     | None \<Rightarrow> (case alt_bracket s of
         Some n \<Rightarrow> Some n
       | None \<Rightarrow> (case alt_escape s of
           Some n \<Rightarrow> Some n
         | None \<Rightarrow> alt_padded s)))"

lemma tag_match_bounds:
  assumes "tag_match s = Some n"
  shows "0 < n \<and> n \<le> length s"
proof -
  have a: "alt_angle s = Some k \<Longrightarrow> 0 < k \<and> k \<le> length s" for k
    by (auto simp: alt_angle_def Let_def split: list.splits if_splits)
  have b: "alt_bracket s = Some k \<Longrightarrow> 0 < k \<and> k \<le> length s" for k
  proof -
    assume h: "alt_bracket s = Some k"
    then obtain r where s: "s = 91 # r"
      by (auto simp: alt_bracket_def split: list.splits if_splits)
    from h s have k: "k = length (takeWhile az_ignorecase r) + 2"
      and t: "take 1 (drop (length (takeWhile az_ignorecase r)) r) = [93]"
      by (auto simp: alt_bracket_def Let_def split: if_splits)
    from t have "length (takeWhile az_ignorecase r) < length r"
      by (cases "length (takeWhile az_ignorecase r) < length r") auto
    with k s show ?thesis by simp
  qed
  have c: "alt_escape s = Some k \<Longrightarrow> 0 < k \<and> k \<le> length s" for k
    by (auto simp: alt_escape_def split: list.splits if_splits)
  have d: "alt_padded s = Some k \<Longrightarrow> 0 < k \<and> k \<le> length s" for k
    by (auto simp: alt_padded_def split: list.splits if_splits)
  from assms a b c d show ?thesis
    by (auto simp: tag_match_def split: option.splits)
qed

text \<open>
  \<^verbatim>\<open>_TAG_PATTERN.finditer(text)\<close>: the spans \<open>(m.start(), m.end())\<close> of the
  non-overlapping matches, scanning from the left; after a match the scan resumes at its
  end, otherwise one position further. No alternative matches the empty string.
\<close>

function finditer :: "pystr \<Rightarrow> nat \<Rightarrow> (nat \<times> nat) list" where
  "finditer text pos =
     (if length text \<le> pos then []
      else (case tag_match (drop pos text) of
              Some n \<Rightarrow> (pos, pos + n) # finditer text (pos + n)
            | None \<Rightarrow> finditer text (pos + 1)))"
  by pat_completeness auto
termination
proof (relation "measure (\<lambda>(text, pos). length text - pos)")
  show "wf (measure (\<lambda>(text, pos). length text - pos))" by simp
next
  fix t :: pystr and pos n :: nat
  assume "\<not> length t \<le> pos" and "tag_match (drop pos t) = Some n"
  then show "((t, pos + n), (t, pos)) \<in> measure (\<lambda>(text, pos). length text - pos)"
    using tag_match_bounds [of "drop pos t" n] by (simp add: less_diff_conv) arith
next
  fix t :: pystr and pos :: nat
  assume "\<not> length t \<le> pos"
  then show "((t, pos + 1), (t, pos)) \<in> measure (\<lambda>(text, pos). length text - pos)"
    by simp
qed

declare finditer.simps [simp del]

type_synonym segment = "pystr \<times> bool"

text \<open>
  The body of the \<^verbatim>\<open>for m in _TAG_PATTERN.finditer(text)\<close> loop of
  \<^verbatim>\<open>parse_tagged_text\<close>, threading \<open>last_end\<close> and \<open>result\<close>.
\<close>

fun tag_loop :: "pystr \<Rightarrow> (nat \<times> nat) list \<Rightarrow> nat \<Rightarrow> segment list \<Rightarrow> nat \<times> segment list" where
  "tag_loop text [] last_end result = (last_end, result)"
| "tag_loop text ((m_start, m_end) # ms) last_end result =
     (let result1 =
            (if m_start > last_end then
               (let segment = slice text last_end m_start in
                if segment \<noteq> [] then result @ [(segment, False)] else result)
             else result);
          result2 = result1 @ [(slice text m_start m_end, True)]
      in tag_loop text ms m_end result2)"

definition parse_tagged_text :: "pystr \<Rightarrow> segment list" where
  "parse_tagged_text text =
     (if text = [] then []
      else
        (let (last_end, result) = tag_loop text (finditer text 0) 0 [] in
         if last_end < length text then
           (let segment = drop last_end text in
            if segment \<noteq> [] then result @ [(segment, False)] else result)
         else result))"

subsection \<open>The tokenizer covers its input\<close>

lemma slice_join: "a \<le> b \<Longrightarrow> b \<le> length t \<Longrightarrow> slice t a b @ drop b t = drop a t"
  unfolding slice_def
  by (metis add_diff_cancel_left' append_take_drop_id drop_drop le_Suc_ex add.commute)

lemma slice_nonempty: "a < b \<Longrightarrow> b \<le> length t \<Longrightarrow> slice t a b \<noteq> []"
  unfolding slice_def by simp

text \<open>
  What the loop guarantees of every segment it emits: the content is not empty, and a
  markup segment holds a character that is not white space (each alternative of the
  pattern does).
\<close>

definition seg_ok :: "segment \<Rightarrow> bool" where
  "seg_ok sg = (fst sg \<noteq> [] \<and> (\<not> snd sg \<or> \<not> list_all isspace (fst sg)))"

lemma tag_match_visible:
  assumes "tag_match s = Some n"
  shows "\<not> list_all isspace (take n s)"
proof -
  have a: "alt_angle s = Some k \<Longrightarrow> \<not> list_all isspace (take k s)" for k
    by (auto simp: alt_angle_def Let_def isspace_def split: list.splits if_splits)
  have b: "alt_bracket s = Some k \<Longrightarrow> \<not> list_all isspace (take k s)" for k
    by (auto simp: alt_bracket_def Let_def isspace_def split: list.splits if_splits)
  have c: "alt_escape s = Some k \<Longrightarrow> \<not> list_all isspace (take k s)" for k
    by (auto simp: alt_escape_def isspace_def split: list.splits if_splits)
  have d: "alt_padded s = Some k \<Longrightarrow> \<not> list_all isspace (take k s)" for k
    by (auto simp: alt_padded_def isspace_def numeral_eq_Suc split: list.splits if_splits)
  from assms a b c d show ?thesis
    by (auto simp: tag_match_def split: option.splits)
qed

lemma tag_loop_inv:
  "le \<le> p \<Longrightarrow> p \<le> length t \<Longrightarrow> tag_loop t (finditer t p) le res = (le', res') \<Longrightarrow>
     le' \<le> length t \<and> concat (map fst res') @ drop le' t = concat (map fst res) @ drop le t
     \<and> (list_all seg_ok res \<longrightarrow> list_all seg_ok res')"
proof (induction t p arbitrary: le res rule: finditer.induct)
  case (1 t pos)
  show ?case
  proof (cases "length t \<le> pos")
    case True
    then have "finditer t pos = []" by (simp add: finditer.simps [of t pos])
    with "1.prems" show ?thesis by simp
  next
    case False
    show ?thesis
    proof (cases "tag_match (drop pos t)")
      case None
      with False have f: "finditer t pos = finditer t (pos + 1)"
        by (simp add: finditer.simps [of t pos])
      from "1.IH"(1)[OF False None, of le res] "1.prems" False f show ?thesis by simp
    next
      case (Some n)
      then have n: "0 < n" "pos + n \<le> length t"
        using tag_match_bounds [of "drop pos t" n] False by auto
      from Some False have f: "finditer t pos = (pos, pos + n) # finditer t (pos + n)"
        by (simp add: finditer.simps [of t pos])
      define res1 where "res1 = (if pos > le then res @ [(slice t le pos, False)] else res)"
      define res2 where "res2 = res1 @ [(slice t pos (pos + n), True)]"
      have lit: "pos > le \<Longrightarrow> slice t le pos \<noteq> []"
        using "1.prems"(2) by (simp add: slice_nonempty)
      have tag: "slice t pos (pos + n) \<noteq> []"
        using n by (simp add: slice_nonempty)
      have vis: "\<not> list_all isspace (slice t pos (pos + n))"
        using tag_match_visible [OF Some] by (simp add: slice_def)
      have step: "tag_loop t (finditer t pos) le res = tag_loop t (finditer t (pos + n)) (pos + n) res2"
        using lit by (simp add: f res1_def res2_def Let_def)
      have c1: "concat (map fst res1) @ drop pos t = concat (map fst res) @ drop le t"
        using "1.prems"(1,2) by (auto simp: res1_def slice_join)
      have c2: "concat (map fst res2) @ drop (pos + n) t = concat (map fst res) @ drop le t"
        using c1 n slice_join [of pos "pos + n" t] by (simp add: res2_def)
      have e2: "list_all seg_ok res \<Longrightarrow> list_all seg_ok res2"
        using lit tag vis by (auto simp: res1_def res2_def seg_ok_def)
      from "1.IH"(2)[OF False Some, of "pos + n" res2] n "1.prems"(3) step
      have "le' \<le> length t \<and> concat (map fst res') @ drop le' t = concat (map fst res2) @ drop (pos + n) t
        \<and> (list_all seg_ok res2 \<longrightarrow> list_all seg_ok res')" by simp
      with c2 e2 show ?thesis by auto
    qed
  qed
qed

lemma parse_tagged_text_covers:
  "concat (map fst (parse_tagged_text s)) = s \<and> list_all seg_ok (parse_tagged_text s)"
proof (cases "s = []")
  case True
  then show ?thesis by (simp add: parse_tagged_text_def)
next
  case False
  obtain le' res' where l: "tag_loop s (finditer s 0) 0 [] = (le', res')"
    by (cases "tag_loop s (finditer s 0) 0 []") auto
  from tag_loop_inv [of 0 0 s "[]" le' res'] l
  have i: "le' \<le> length s" "concat (map fst res') @ drop le' s = s" "list_all seg_ok res'"
    by auto
  show ?thesis
  proof (cases "le' < length s")
    case True
    with False l i show ?thesis by (simp add: parse_tagged_text_def seg_ok_def)
  next
    case False
    with i have "drop le' s = []" by simp
    with \<open>s \<noteq> []\<close> False l i show ?thesis by (simp add: parse_tagged_text_def)
  qed
qed

text \<open>
  Claim C1 (tokenizer round-trip). For every string \<open>s\<close>, concatenating the contents of
  the segments of \<open>parse_tagged_text s\<close> in their output order gives back \<open>s\<close>, and no
  emitted segment has empty content.
\<close>

theorem tokenizer_round_trip:
  "concat (map fst (parse_tagged_text s)) = s \<and> [] \<notin> fst ` set (parse_tagged_text s)"
proof -
  have "list_all seg_ok segs \<Longrightarrow> [] \<notin> fst ` set segs" for segs :: "segment list"
    by (auto simp: list_all_iff seg_ok_def)
  with parse_tagged_text_covers [of s] show ?thesis by simp
qed

subsection \<open>The escape scenario\<close>

text \<open>
  The scenario string \<^verbatim>\<open>Defeats <color is="red">Alive</color> in \n battle\<close>, where
  \<^verbatim>\<open>\n\<close> is the two characters backslash (92) and \<open>n\<close> (110), and 34 is the double quote.
\<close>

definition scenario :: pystr where
  "scenario = py ''Defeats <color is='' @ [34] @ py ''red'' @ [34] @ py ''>Alive</color> in ''
     @ [92, 110] @ py '' battle''"

text \<open>
  Claim C4, as stated: the escape is a markup segment of exactly the two characters
  backslash and \<open>n\<close>. It is not: the scan reaches the space before the backslash first, where
  the fourth alternative (the padded form) matches, so no segment of the tokenization is
  the bare two-character escape.
\<close>

theorem scenario_bare_escape_absent:
  "([92, 110], True) \<notin> set (parse_tagged_text scenario)"
  by code_simp

text \<open>
  Claim C4, amended. The scenario tokenizes into the literal \<open>Defeats \<close>, the opening tag,
  the literal \<open>Alive\<close>, the closing tag, the literal \<open> in\<close>, the escape in its padded form
  (space, backslash, \<open>n\<close>, space) as one markup segment, and the literal \<open>battle\<close>.
\<close>

theorem scenario_tokenization:
  "parse_tagged_text scenario =
     [(py ''Defeats '', False),
      (py ''<color is='' @ [34] @ py ''red'' @ [34] @ py ''>'', True),
      (py ''Alive'', False),
      (py ''</color>'', True),
      (py '' in'', False),
      ([32, 92, 110, 32], True),
      (py ''battle'', False)]"
  by code_simp

section \<open>Segment translator\<close>

text \<open>
  \<^verbatim>\<open>translate_func(text) -> (translated, error)\<close> is injected; both components are
  \<^verbatim>\<open>str | None\<close>. The real function (a cache in front of network back ends) has effects, so
  the model threads a state of any type through the calls, in the order the source makes
  them; a pure function is the case where the state is ignored.
\<close>

type_synonym 'st translate_func = "pystr \<Rightarrow> 'st \<Rightarrow> (pystr option \<times> pystr option) \<times> 'st"

text \<open>Truth value of a \<^verbatim>\<open>str | None\<close>: \<^verbatim>\<open>None\<close> and the empty string are false.\<close>

definition truthy :: "pystr option \<Rightarrow> bool" where
  "truthy v = (case v of None \<Rightarrow> False | Some s \<Rightarrow> s \<noteq> [])"

text \<open>
  \<^verbatim>\<open>seg[:len(seg) - len(seg.lstrip())]\<close> and \<^verbatim>\<open>seg[len(seg.rstrip()):]\<close>.
\<close>

definition leading :: "pystr \<Rightarrow> pystr" where
  "leading seg = take (length seg - length (lstrip seg)) seg"

definition trailing :: "pystr \<Rightarrow> pystr" where
  "trailing seg = drop (length (rstrip seg)) seg"

text \<open>
  The list comprehension that selects the literal segments with non-blank content,
  each with its index in \<open>segments\<close>.
\<close>

definition text_segments_from :: "nat \<Rightarrow> segment list \<Rightarrow> (nat \<times> pystr) list" where
  "text_segments_from k segments =
     map (\<lambda>(i, (seg, is_tag)). (i, seg))
       (filter (\<lambda>(i, (seg, is_tag)). \<not> is_tag \<and> strip seg \<noteq> []) (enumerate k segments))"

text \<open>
  The loop \<^verbatim>\<open>for idx, seg in text_segments\<close>. Every \<open>idx\<close> comes from \<open>enumerate\<close>
  over the list that is updated, so the assignment never leaves its range.
\<close>

fun translate_loop ::
  "'st translate_func \<Rightarrow> (nat \<times> pystr) list \<Rightarrow> segment list \<Rightarrow> pystr list \<Rightarrow> 'st
     \<Rightarrow> (segment list \<times> pystr list) \<times> 'st" where
  "translate_loop translate_func [] translated_segments errors st =
     ((translated_segments, errors), st)"
| "translate_loop translate_func ((idx, seg) # rest) translated_segments errors st =
     (let seg_clean = strip seg in
      if seg_clean = [] then translate_loop translate_func rest translated_segments errors st
      else
        (case translate_func seg_clean st of
           ((tr, err), st1) \<Rightarrow>
             (let translated_segments1 =
                    (case tr of
                       Some t \<Rightarrow>
                         if t \<noteq> [] then
                           translated_segments[idx := (leading seg @ t @ trailing seg, False)]
                         else translated_segments
                     | None \<Rightarrow> translated_segments);
                  errors1 =
                    (case err of
                       Some e \<Rightarrow> if e \<noteq> [] then errors @ [e] else errors
                     | None \<Rightarrow> errors)
              in translate_loop translate_func rest translated_segments1 errors1 st1)))"

definition smart_translate ::
  "pystr \<Rightarrow> 'st translate_func \<Rightarrow> 'st \<Rightarrow> (pystr option \<times> pystr option) \<times> 'st" where
  "smart_translate text translate_func st =
     (if text = [] \<or> strip text = [] then ((None, None), st)
      else
        (let segments = parse_tagged_text text in
         if list_all snd segments \<or> \<not> list_ex snd segments then translate_func text st
         else
           (let text_segments = text_segments_from 0 segments in
            if text_segments = [] then ((Some text, None), st)
            else
              (case translate_loop translate_func text_segments segments [] st of
                 ((translated_segments, errors), st1) \<Rightarrow>
                   (let result = concat (map fst translated_segments);
                        error = (case errors of [] \<Rightarrow> None | e # _ \<Rightarrow> Some e)
                    in ((Some result, error), st1))))))"

text \<open>A translate function without state that answers \<open>X\<close> to every request.\<close>

definition answer_x :: "unit translate_func" where
  "answer_x seg st = ((Some (py ''X''), None), st)"

subsection \<open>What the translator computes\<close>

text \<open>
  The results of calling the translate function on each text of a list, in order, with
  the state after the last call.
\<close>

fun calls :: "'st translate_func \<Rightarrow> pystr list \<Rightarrow> 'st \<Rightarrow> (pystr option \<times> pystr option) list \<times> 'st" where
  "calls f [] st = ([], st)"
| "calls f (x # xs) st =
     (case f x st of (r, st1) \<Rightarrow> (case calls f xs st1 of (rs, st2) \<Rightarrow> (r # rs, st2)))"

text \<open>The literal segments the loop translates: not markup, and not blank.\<close>

definition translatable :: "segment \<Rightarrow> bool" where
  "translatable sg = (\<not> snd sg \<and> strip (fst sg) \<noteq> [])"

text \<open>
  The segments with the translations put back: markup and blank literals stay as they
  are; a translatable literal takes the next result of the calls, and is replaced (with its
  leading and trailing white space kept) when that translation is neither \<^verbatim>\<open>None\<close> nor
  empty, and stays as it is otherwise.
\<close>

fun reinsert :: "segment list \<Rightarrow> (pystr option \<times> pystr option) list \<Rightarrow> segment list" where
  "reinsert [] outs = []"
| "reinsert (sg # segs) outs =
     (if translatable sg then
        (case outs of
           [] \<Rightarrow> sg # reinsert segs []
         | (tr, err) # outs' \<Rightarrow>
             (if truthy tr then (leading (fst sg) @ the tr @ trailing (fst sg), False) else sg)
               # reinsert segs outs')
      else sg # reinsert segs outs)"

text \<open>The first error of the calls that is neither \<^verbatim>\<open>None\<close> nor the empty string.\<close>

definition first_error :: "(pystr option \<times> pystr option) list \<Rightarrow> pystr option" where
  "first_error outs = (case filter truthy (map snd outs) of [] \<Rightarrow> None | e # _ \<Rightarrow> e)"

text \<open>The first error of the calls that is not \<^verbatim>\<open>None\<close>, as claim C9 words it.\<close>

definition first_non_null :: "(pystr option \<times> pystr option) list \<Rightarrow> pystr option" where
  "first_non_null outs = (case filter (\<lambda>e. e \<noteq> None) (map snd outs) of [] \<Rightarrow> None | e # _ \<Rightarrow> e)"

text \<open>
  Two translate functions without state. The first fails on \<open>Alive\<close> with the error
  \<open>boom\<close> and answers \<open>X\<close> to anything else. The second does the same, and fails on
  \<open>Defeats\<close> with an empty error message (what \<^verbatim>\<open>str(e)\<close> is for an exception without
  arguments).
\<close>

definition fails_on_alive :: "unit translate_func" where
  "fails_on_alive seg st =
     (if seg = py ''Alive'' then ((None, Some (py ''boom'')), st)
      else ((Some (py ''X''), None), st))"

definition fails_silently :: "unit translate_func" where
  "fails_silently seg st =
     (if seg = py ''Defeats'' then ((None, Some []), st)
      else if seg = py ''Alive'' then ((None, Some (py ''boom'')), st)
      else ((Some (py ''X''), None), st))"

lemma text_segments_from_Cons:
  "text_segments_from k (sg # segs) =
     (if translatable sg then [(k, fst sg)] else []) @ text_segments_from (Suc k) segs"
  by (cases sg) (simp add: text_segments_from_def translatable_def)

lemma translate_loop_refines:
  "translate_loop f (text_segments_from (length done) suf) (done @ suf) errs st =
     (case calls f (map (\<lambda>sg. strip (fst sg)) (filter translatable suf)) st of
        (outs, st') \<Rightarrow>
          ((done @ reinsert suf outs, errs @ map the (filter truthy (map snd outs))), st'))"
proof (induction suf arbitrary: "done" errs st)
  case Nil
  then show ?case by (simp add: text_segments_from_def)
next
  case (Cons sg suf)
  show ?case
  proof (cases "translatable sg")
    case False
    from Cons [of "done @ [sg]" errs st] False show ?thesis
      by (simp add: text_segments_from_Cons)
  next
    case True
    obtain tr err st1 where f: "f (strip (fst sg)) st = ((tr, err), st1)"
      by (metis surj_pair)
    obtain outs st2 where c: "calls f (map (\<lambda>sg. strip (fst sg)) (filter translatable suf)) st1 = (outs, st2)"
      by (metis surj_pair)
    define sg' where "sg' = (if truthy tr then (leading (fst sg) @ the tr @ trailing (fst sg), False) else sg)"
    define errs' where "errs' = (if truthy err then errs @ [the err] else errs)"
    have upd: "(case tr of Some t \<Rightarrow> if t \<noteq> [] then (done @ sg # suf)[length done := (leading (fst sg) @ t @ trailing (fst sg), False)] else done @ sg # suf
                 | None \<Rightarrow> done @ sg # suf) = (done @ [sg']) @ suf"
      by (cases tr) (auto simp: sg'_def truthy_def)
    have er: "(case err of Some e \<Rightarrow> if e \<noteq> [] then errs @ [e] else errs | None \<Rightarrow> errs) = errs'"
      by (cases err) (auto simp: errs'_def truthy_def)
    have "translate_loop f (text_segments_from (length done) (sg # suf)) (done @ sg # suf) errs st
        = translate_loop f (text_segments_from (length (done @ [sg'])) suf) ((done @ [sg']) @ suf) errs' st1"
      using True f upd er by (simp add: text_segments_from_Cons translatable_def Let_def)
    also have "\<dots> = ((done @ [sg'] @ reinsert suf outs, errs' @ map the (filter truthy (map snd outs))), st2)"
      using Cons [of "done @ [sg']" errs' st1] c by simp
    finally show ?thesis
      using True f c by (simp add: sg'_def errs'_def)
  qed
qed


lemma strip_eq_Nil: "strip s = [] \<longleftrightarrow> list_all isspace s"
proof
  assume e: "strip s = []"
  show "list_all isspace s"
  proof (rule ccontr)
    assume n: "\<not> list_all isspace s"
    then have d: "dropWhile isspace s \<noteq> []"
      by (simp add: dropWhile_eq_Nil_conv list_all_iff)
    then have h: "\<not> isspace (hd (dropWhile isspace s))"
      by (rule hd_dropWhile)
    from d have "hd (dropWhile isspace s) \<in> set (rev (dropWhile isspace s))" by simp
    with h have "dropWhile isspace (rev (dropWhile isspace s)) \<noteq> []"
      by (metis dropWhile_eq_Nil_conv)
    with e show False by (simp add: strip_def rstrip_def lstrip_def)
  qed
next
  assume "list_all isspace s"
  then show "strip s = []"
    by (auto simp: strip_def rstrip_def lstrip_def list_all_iff dest: set_dropWhileD)
qed

lemma markup_visible:
  assumes "list_ex snd (parse_tagged_text s)"
  shows "strip s \<noteq> []"
proof -
  from assms obtain sg where sg: "sg \<in> set (parse_tagged_text s)" "snd sg"
    by (auto simp: list_ex_iff)
  with parse_tagged_text_covers [of s] have "\<not> list_all isspace (fst sg)"
    by (auto simp: list_all_iff seg_ok_def)
  then obtain c where c: "c \<in> set (fst sg)" "\<not> isspace c"
    by (auto simp: list_all_iff)
  from sg(1) c(1) have "c \<in> set (concat (map fst (parse_tagged_text s)))" by auto
  with parse_tagged_text_covers [of s] have "c \<in> set s" by simp
  with c(2) show ?thesis by (auto simp: strip_eq_Nil list_all_iff)
qed

lemma reinsert_untranslatable:
  "filter translatable segs = [] \<Longrightarrow> reinsert segs outs = segs"
  by (induction segs) (auto split: if_splits)

lemma text_segments_from_Nil:
  "text_segments_from k segs = [] \<longleftrightarrow> filter translatable segs = []"
proof (induction segs arbitrary: k)
  case Nil
  show ?case by (simp add: text_segments_from_def)
next
  case (Cons sg segs)
  then show ?case by (simp add: text_segments_from_Cons)
qed

lemma smart_translate_mixed:
  assumes m: "list_ex snd (parse_tagged_text s)" and l: "\<not> list_all snd (parse_tagged_text s)"
  shows "smart_translate s f st =
     (case calls f (map (\<lambda>sg. strip (fst sg)) (filter translatable (parse_tagged_text s))) st of
        (outs, st') \<Rightarrow>
          ((Some (concat (map fst (reinsert (parse_tagged_text s) outs))), first_error outs), st'))"
proof -
  let ?segs = "parse_tagged_text s"
  from m have v: "strip s \<noteq> []" by (rule markup_visible)
  then have ne: "s \<noteq> []" by (auto simp: strip_eq_Nil)
  show ?thesis
  proof (cases "filter translatable ?segs = []")
    case True
    then have "text_segments_from 0 ?segs = []" by (simp add: text_segments_from_Nil)
    with v ne m l True parse_tagged_text_covers [of s] show ?thesis
      by (simp add: smart_translate_def reinsert_untranslatable first_error_def)
  next
    case False
    then have t: "text_segments_from 0 ?segs \<noteq> []" by (simp add: text_segments_from_Nil)
    obtain outs st' where c: "calls f (map (\<lambda>sg. strip (fst sg)) (filter translatable ?segs)) st = (outs, st')"
      by (metis surj_pair)
    have fe: "(case map the (filter truthy (map snd outs)) of [] \<Rightarrow> None | e # _ \<Rightarrow> Some e) = first_error outs"
      by (cases "filter truthy (map snd outs)") (auto simp: first_error_def truthy_def filter_eq_Cons_iff split: option.splits)
    from translate_loop_refines [of f "[]" ?segs "[]" st] c
    have "translate_loop f (text_segments_from 0 ?segs) ?segs [] st =
        ((reinsert ?segs outs, map the (filter truthy (map snd outs))), st')" by simp
    with v ne m l t c fe show ?thesis
      by (simp add: smart_translate_def Let_def)
  qed
qed

lemma smart_translate_all_markup:
  assumes "s \<noteq> []" and "list_all snd (parse_tagged_text s)"
  shows "smart_translate s f st = f s st"
proof -
  from assms have "list_ex snd (parse_tagged_text s)"
    using parse_tagged_text_covers [of s] by (cases "parse_tagged_text s") auto
  then have "strip s \<noteq> []" by (rule markup_visible)
  with assms show ?thesis by (simp add: smart_translate_def)
qed

text \<open>
  In the mixed case every markup segment stays where it is: the rebuilt list has the
  flags of the tokenization, and each markup segment is its own image.
\<close>

lemma reinsert_preserves_markup:
  "map snd (reinsert segs outs) = map snd segs \<and>
   list_all2 (\<lambda>sg sg'. \<not> snd sg \<or> sg' = sg) segs (reinsert segs outs)"
  by (induction segs arbitrary: outs) (auto simp: translatable_def split: list.splits)

subsection \<open>Text that is only markup\<close>

text \<open>
  Claim C2 says that a non-empty string whose tokenization is purely markup comes back
  unchanged with no error, whatever the translate function. The source's comment on the
  branch \<^verbatim>\<open>if not text_segments\<close> says the same, but the earlier test
  \<^verbatim>\<open>all(is_tag for _, is_tag in segments)\<close> returns \<^verbatim>\<open>translate_func(text)\<close> first.
  On \<^verbatim>\<open><b>\<close>, whose tokenization is the one markup segment \<^verbatim>\<open><b>\<close>, with a translate
  function that answers \<open>X\<close>, the result is \<open>X\<close> and not \<^verbatim>\<open><b>\<close>.
\<close>

theorem pure_markup_is_sent_to_translator:
  "parse_tagged_text (py ''<b>'') = [(py ''<b>'', True)] \<and>
   smart_translate (py ''<b>'') answer_x () = ((Some (py ''X''), None), ())"
  by code_simp

text \<open>
  Claim C3 says that the result holds every markup segment of the tokenization verbatim
  and in order whenever the tokenization has a markup segment. On \<^verbatim>\<open>[TMP]<i>\<close>, two
  markup segments and nothing else, the same test hands the whole text to the translate
  function, and the result \<open>X\<close> holds neither segment.
\<close>

theorem pure_markup_is_not_preserved:
  "parse_tagged_text (py ''[TMP]<i>'') = [(py ''[TMP]'', True), (py ''<i>'', True)] \<and>
   smart_translate (py ''[TMP]<i>'') answer_x () = ((Some (py ''X''), None), ())"
  by code_simp

subsection \<open>Errors and partial results\<close>

text \<open>
  Claim C9, as stated: the error returned is the first error that is not null. On the
  scenario string with \<open>fails_silently\<close>, the first call (on \<open>Defeats\<close>) returns the
  empty string as its error, which is not null; the loop tests \<^verbatim>\<open>if err:\<close>, skips it,
  and returns the error of the second call.
\<close>

theorem empty_error_is_skipped:
  "snd (fst (smart_translate scenario fails_silently ())) = Some (py ''boom'') \<and>
   first_non_null (fst (calls fails_silently
      (map (\<lambda>sg. strip (fst sg)) (filter translatable (parse_tagged_text scenario))) ())) = Some []"
  by code_simp

text \<open>
  Claim C9, amended. For every string whose tokenization has a markup segment and a
  literal segment, every translate function and every state: the result is the
  concatenation of the segments with the translations put back (\<open>reinsert\<close>: a literal is
  replaced exactly when its translation is neither null nor empty, and keeps its original
  text otherwise), and the error is the first error of the calls, in the order the literal
  segments are translated, that is neither null nor empty (null when there is none).
\<close>

theorem partial_translation_first_error:
  assumes "list_ex snd (parse_tagged_text s)" and "\<not> list_all snd (parse_tagged_text s)"
  shows "fst (fst (smart_translate s f st)) =
           Some (concat (map fst (reinsert (parse_tagged_text s)
             (fst (calls f (map (\<lambda>sg. strip (fst sg))
                (filter translatable (parse_tagged_text s))) st)))))
       \<and> snd (fst (smart_translate s f st)) =
           first_error (fst (calls f (map (\<lambda>sg. strip (fst sg))
              (filter translatable (parse_tagged_text s))) st))"
  using smart_translate_mixed [OF assms, of f st]
  by (simp split: prod.splits)

theorem partial_translation_first_error_witness:
  "list_ex snd (parse_tagged_text scenario) \<and> \<not> list_all snd (parse_tagged_text scenario) \<and>
   fst (fst (smart_translate scenario fails_on_alive ())) =
     Some (py ''X <color is='' @ [34] @ py ''red'' @ [34] @ py ''>Alive</color> X ''
       @ [92, 110] @ py '' X'') \<and>
   snd (fst (smart_translate scenario fails_on_alive ())) = Some (py ''boom'')"
proof -
  have a: "list_ex snd (parse_tagged_text scenario)" by code_simp
  have b: "\<not> list_all snd (parse_tagged_text scenario)" by code_simp
  have c: "calls fails_on_alive
      (map (\<lambda>sg. strip (fst sg)) (filter translatable (parse_tagged_text scenario))) ()
    = ([(Some (py ''X''), None), (None, Some (py ''boom'')), (Some (py ''X''), None),
        (Some (py ''X''), None)], ())"
    by code_simp
  have d: "concat (map fst (reinsert (parse_tagged_text scenario)
      [(Some (py ''X''), None), (None, Some (py ''boom'')), (Some (py ''X''), None),
       (Some (py ''X''), None)]))
     = py ''X <color is='' @ [34] @ py ''red'' @ [34] @ py ''>Alive</color> X ''
         @ [92, 110] @ py '' X''"
    by code_simp
  have e: "first_error [(Some (py ''X''), None), (None, Some (py ''boom'')),
      (Some (py ''X''), None), (Some (py ''X''), None)] = Some (py ''boom'')"
    by code_simp
  from partial_translation_first_error [OF a b, of fails_on_alive "()"] a b show ?thesis
    unfolding c fst_conv d e by simp
qed

end
